theory Spec2Isabelle
  imports Complex_Main "HOL-Library.Log_Nat"
begin

section \<open>Odds normalization (normaliz\_odds.py)\<close>

text \<open>
  The module reads raw odds snapshots (JSON documents with the nesting
  events, bookmakers, markets, outcomes), converts American odds to decimal odds
  and implied probabilities, removes the bookmaker margin and writes one flat
  record per outcome.

  Conventions of the embedding:
  \<^item> A decoded JSON document is a value of \<open>json\<close>. A dict is the list of its items
    (keys distinct, as \<open>json.load\<close> builds it).
  \<^item> A Python exception is a value of \<open>error\<close>; a function that can raise returns
    \<open>error + 'a\<close>, with \<open>Inl\<close> for the exception.
  \<^item> Python floats are idealised as exact rationals (\<open>rat\<close>): \<open>/\<close> is exact
    division and \<open>round(x, 4)\<close> rounds the exact value, half to even. IEEE-754
    rounding, overflow, infinities and NaN are outside the model.
  \<^item> \<open>print\<close> is not modelled.
\<close>

subsection \<open>Values and exceptions\<close>

datatype json =
    JNull
  | JBool bool
  | JInt int
  | JFloat rat
  | JStr string
  | JArr "json list"
  | JObj "(string \<times> json) list"

datatype error =
    TypeError
  | AttributeError
  | ZeroDivisionError
  | IndexError
  | OverflowError
  | JSONDecodeError
  | OSError

text \<open>Sequencing of two computations that can raise.\<close>

definition bind :: "error + 'a \<Rightarrow> ('a \<Rightarrow> error + 'b) \<Rightarrow> error + 'b" where
  "bind m f = (case m of Inl e \<Rightarrow> Inl e | Inr x \<Rightarrow> f x)"

text \<open>A list comprehension \<open>[f(x) for x in xs]\<close>: left to right, the first exception ends it.\<close>

fun map_res :: "('a \<Rightarrow> error + 'b) \<Rightarrow> 'a list \<Rightarrow> error + 'b list" where
  "map_res f [] = Inr []"
| "map_res f (x # xs) =
     (case f x of
        Inl e \<Rightarrow> Inl e
      | Inr y \<Rightarrow> (case map_res f xs of Inl e \<Rightarrow> Inl e | Inr ys \<Rightarrow> Inr (y # ys)))"

text \<open>A \<open>for x in xs\<close> loop whose body updates a state and can raise.\<close>

fun for_each :: "('a \<Rightarrow> 's \<Rightarrow> error + 's) \<Rightarrow> 'a list \<Rightarrow> 's \<Rightarrow> error + 's" where
  "for_each body [] s = Inr s"
| "for_each body (x # xs) s =
     (case body x s of Inl e \<Rightarrow> Inl e | Inr s' \<Rightarrow> for_each body xs s')"

text \<open>\<open>d.get(k, default)\<close>: only a dict has the method.\<close>

fun dict_get :: "json \<Rightarrow> string \<Rightarrow> json \<Rightarrow> error + json" where
  "dict_get (JObj kvs) k dflt = Inr (case map_of kvs k of None \<Rightarrow> dflt | Some v \<Rightarrow> v)"
| "dict_get _ k dflt = Inl AttributeError"

text \<open>
  The items a \<open>for\<close> loop or a comprehension draws from a value: the elements of a list,
  the keys of a dict, the characters of a string; anything else is not iterable.
\<close>

fun py_iter :: "json \<Rightarrow> error + json list" where
  "py_iter (JArr xs) = Inr xs"
| "py_iter (JObj kvs) = Inr (map (\<lambda>kv. JStr (fst kv)) kvs)"
| "py_iter (JStr s) = Inr (map (\<lambda>c. JStr [c]) s)"
| "py_iter _ = Inl TypeError"

text \<open>\<open>xs[i]\<close> for \<open>i \<ge> 0\<close>.\<close>

definition py_index :: "'a list \<Rightarrow> nat \<Rightarrow> error + 'a" where
  "py_index xs i = (if i < length xs then Inr (xs ! i) else Inl IndexError)"

subsection \<open>Arithmetic\<close>

text \<open>The numeric value of an operand; \<open>bool\<close> is a subclass of \<open>int\<close>.\<close>

fun num_of :: "json \<Rightarrow> rat option" where
  "num_of (JInt n) = Some (of_int n)"
| "num_of (JFloat x) = Some x"
| "num_of (JBool b) = Some (if b then 1 else 0)"
| "num_of _ = None"

text \<open>True division \<open>a / b\<close>.\<close>

definition true_div :: "rat \<Rightarrow> rat \<Rightarrow> error + rat" where
  "true_div a b = (if b = 0 then Inl ZeroDivisionError else Inr (a / b))"

text \<open>\<open>round(x, ndigits)\<close> on a float: to the nearest multiple of \<open>10^-ndigits\<close>, ties to even.\<close>

definition round_half_even :: "rat \<Rightarrow> int" where
  "round_half_even x =
     (let f = \<lfloor>x\<rfloor>; r = x - of_int f
      in if r < 1 / 2 then f else if 1 / 2 < r then f + 1 else if even f then f else f + 1)"

definition py_round :: "rat \<Rightarrow> nat \<Rightarrow> rat" where
  "py_round x ndigits = of_int (round_half_even (x * 10 ^ ndigits)) / 10 ^ ndigits"

subsection \<open>Odds converter and probability normalizer\<close>

text \<open>
  \<^verbatim>\<open>
  def american_to_decimal(odds):
      if odds > 0:
          return 1 + odds / 100
      else:
          return 1 + 100 / abs(odds)
  \<close>
  The comparison \<open>odds > 0\<close> raises TypeError on \<open>None\<close>, a string, a list or a dict.
\<close>

definition american_to_decimal :: "json \<Rightarrow> error + rat" where
  "american_to_decimal odds =
     (case num_of odds of
        None \<Rightarrow> Inl TypeError
      | Some v \<Rightarrow>
          if v > 0 then bind (true_div v 100) (\<lambda>q. Inr (1 + q))
          else bind (true_div 100 \<bar>v\<bar>) (\<lambda>q. Inr (1 + q)))"

definition compute_implied_prob :: "rat \<Rightarrow> error + rat" where
  "compute_implied_prob decimal_odds = true_div 1 decimal_odds"

text \<open>
  \<^verbatim>\<open>
  def remove_vig(probabilities):
      total = sum(probabilities)
      return [p / total for p in probabilities]
  \<close>
\<close>

definition remove_vig :: "rat list \<Rightarrow> error + rat list" where
  "remove_vig probabilities =
     (let total = sum_list probabilities
      in map_res (\<lambda>p. true_div p total) probabilities)"

subsection \<open>Record flattener\<close>

text \<open>
  The module-level \<open>sport\<close> (line 8). Inside \<open>normalize_snapshot_file\<close> the name is
  assigned, hence local: the function never reads this value.
\<close>

definition sport_module :: string where
  "sport_module = ''basketball_nba''"

text \<open>One output record; the fields are the keys of the \<open>row\<close> dict, in its order.\<close>

record 'n row =
  event_id :: json
  sport :: json
  commence_time :: json
  bookmaker :: json
  market :: json
  outcome :: json
  american_odds :: json
  decimal_odds :: 'n
  implied_probability :: 'n
  fair_probability :: 'n
  last_update :: json

text \<open>
  The three lists of one market, positionally aligned with its outcomes:
  \<^verbatim>\<open>
  decimal_odds_list = [
      american_to_decimal(o.get("price")) for o in market.get("outcomes", [])
  ]
  implied_probs = [compute_implied_prob(d) for d in decimal_odds_list]
  fair_probs = remove_vig(implied_probs)
  \<close>
\<close>

definition market_probs :: "json \<Rightarrow> error + (rat list \<times> rat list \<times> rat list)" where
  "market_probs mk =
     bind (dict_get mk ''outcomes'' (JArr [])) (\<lambda>ocs.
     bind (py_iter ocs) (\<lambda>outcomes.
     bind (map_res (\<lambda>oc. bind (dict_get oc ''price'' JNull) american_to_decimal) outcomes)
       (\<lambda>decimal_odds_list.
     bind (map_res compute_implied_prob decimal_odds_list) (\<lambda>implied_probs.
     bind (remove_vig implied_probs) (\<lambda>fair_probs.
     Inr (decimal_odds_list, implied_probs, fair_probs))))))"

text \<open>
  The body of \<open>for idx, outcome in enumerate(market.get("outcomes", []))\<close>: it appends
  one row to \<open>normalized_rows\<close>. The first six arguments are the values inherited from
  the event, the bookmaker and the market.
\<close>

definition outcome_body ::
  "json \<Rightarrow> json \<Rightarrow> json \<Rightarrow> json \<Rightarrow> json \<Rightarrow> json \<Rightarrow> rat list \<Rightarrow> rat list \<Rightarrow> rat list
   \<Rightarrow> nat \<times> json \<Rightarrow> rat row list \<Rightarrow> error + rat row list" where
  "outcome_body eid sp ct bookmaker_name lu market_key
       decimal_odds_list implied_probs fair_probs io normalized_rows =
     (case io of (idx, oc) \<Rightarrow>
     bind (dict_get oc ''name'' JNull) (\<lambda>outcome_name.
     bind (dict_get oc ''price'' JNull) (\<lambda>price.
     bind (py_index decimal_odds_list idx) (\<lambda>d.
     bind (py_index implied_probs idx) (\<lambda>implied_prob.
     bind (py_index fair_probs idx) (\<lambda>fair_prob.
     Inr (normalized_rows @
       [\<lparr> event_id = eid, sport = sp, commence_time = ct, bookmaker = bookmaker_name,
          market = market_key, outcome = outcome_name, american_odds = price,
          decimal_odds = py_round d 4,
          implied_probability = py_round implied_prob 4,
          fair_probability = py_round fair_prob 4,
          last_update = lu \<rparr>])))))))"

text \<open>The body of \<open>for market in bookmaker.get("markets", [])\<close>.\<close>

definition market_body ::
  "json \<Rightarrow> json \<Rightarrow> json \<Rightarrow> json \<Rightarrow> json \<Rightarrow> json \<Rightarrow> rat row list \<Rightarrow> error + rat row list" where
  "market_body eid sp ct bookmaker_name lu mk normalized_rows =
     bind (dict_get mk ''key'' JNull) (\<lambda>market_key.
     bind (market_probs mk) (\<lambda>(decimal_odds_list, implied_probs, fair_probs).
     bind (dict_get mk ''outcomes'' (JArr [])) (\<lambda>ocs.
     bind (py_iter ocs) (\<lambda>outcomes.
     for_each
       (outcome_body eid sp ct bookmaker_name lu market_key
          decimal_odds_list implied_probs fair_probs)
       (enumerate 0 outcomes) normalized_rows))))"

text \<open>The body of \<open>for bookmaker in event.get("bookmakers", [])\<close>.\<close>

definition bookmaker_body ::
  "json \<Rightarrow> json \<Rightarrow> json \<Rightarrow> json \<Rightarrow> rat row list \<Rightarrow> error + rat row list" where
  "bookmaker_body eid sp ct bk normalized_rows =
     bind (dict_get bk ''key'' JNull) (\<lambda>bookmaker_name.
     bind (dict_get bk ''last_update'' JNull) (\<lambda>lu.
     bind (dict_get bk ''markets'' (JArr [])) (\<lambda>ms.
     bind (py_iter ms) (\<lambda>markets.
     for_each (market_body eid sp ct bookmaker_name lu) markets normalized_rows))))"

text \<open>
  The body of \<open>for event in snapshot.get("events", [])\<close>. The local \<open>sport\<close> is
  assigned from the event before any row is built; \<open>home_team\<close> and \<open>away_team\<close>
  are read and not used.
\<close>

definition event_body :: "json \<Rightarrow> rat row list \<Rightarrow> error + rat row list" where
  "event_body ev normalized_rows =
     bind (dict_get ev ''id'' JNull) (\<lambda>eid.
     bind (dict_get ev ''sport_key'' JNull) (\<lambda>sp.
     bind (dict_get ev ''commence_time'' JNull) (\<lambda>ct.
     bind (dict_get ev ''home_team'' JNull) (\<lambda>home_team.
     bind (dict_get ev ''away_team'' JNull) (\<lambda>away_team.
     bind (dict_get ev ''bookmakers'' (JArr [])) (\<lambda>bs.
     bind (py_iter bs) (\<lambda>bookmakers.
     for_each (bookmaker_body eid sp ct) bookmakers normalized_rows)))))))"

text \<open>\<open>normalize_snapshot_file\<close> from the decoded document on (lines 32 to 78).\<close>

definition normalize_snapshot :: "json \<Rightarrow> error + rat row list" where
  "normalize_snapshot snapshot =
     bind (dict_get snapshot ''events'' (JArr [])) (\<lambda>evs.
     bind (py_iter evs) (\<lambda>events.
     for_each event_body events []))"

subsection \<open>Loader and sink\<close>

text \<open>
  The environment of a run: the entries of the snapshot folder in the order
  \<open>os.listdir\<close> gives them, what opening and decoding a path gives
  (\<open>OSError\<close>, \<open>JSONDecodeError\<close> or the document), and which paths can be
  opened for writing. \<open>os.makedirs\<close> and \<open>os.listdir\<close> are taken to succeed.
\<close>

record filesystem =
  listdir :: "string list"
  load :: "string \<Rightarrow> error + json"
  writable :: "string \<Rightarrow> bool"

definition SNAPSHOT_FOLDER :: string where
  "SNAPSHOT_FOLDER = ''snapshots''"

definition NORMALIZED_FOLDER :: string where
  "NORMALIZED_FOLDER = ''normalized''"

text \<open>\<open>os.path.join\<close> of a folder and a directory entry.\<close>

definition path_join :: "string \<Rightarrow> string \<Rightarrow> string" where
  "path_join folder filename = folder @ ''/'' @ filename"

definition normalize_snapshot_file :: "filesystem \<Rightarrow> string \<Rightarrow> error + rat row list" where
  "normalize_snapshot_file fs filename =
     bind (load fs (path_join SNAPSHOT_FOLDER filename)) normalize_snapshot"

text \<open>\<open>s.endswith(suf)\<close> and \<open>s.replace(old, new)\<close> (every occurrence, left to right).\<close>

definition endswith :: "string \<Rightarrow> string \<Rightarrow> bool" where
  "endswith s suf = (length suf \<le> length s \<and> drop (length s - length suf) s = suf)"

fun replace_str :: "string \<Rightarrow> string \<Rightarrow> string \<Rightarrow> string" where
  "replace_str old new [] = []"
| "replace_str old new (c # cs) =
     (if old \<noteq> [] \<and> take (length old) (c # cs) = old
      then new @ replace_str old new (drop (length old - 1) cs)
      else c # replace_str old new cs)"

text \<open>What a run writes: a JSON array of rows, or a CSV table with its header.\<close>

datatype content = JsonDoc "rat row list" | CsvDoc "string list" "rat row list"

definition fieldnames :: "string list" where
  "fieldnames = [''event_id'', ''sport'', ''commence_time'', ''bookmaker'', ''market'',
     ''outcome'', ''american_odds'', ''decimal_odds'', ''implied_probability'',
     ''fair_probability'', ''last_update'']"

text \<open>
  A loop over files whose body writes: the writes made before an exception stay made,
  so the state is returned together with the exception, if any.
\<close>

fun for_each_io ::
  "('a \<Rightarrow> 's \<Rightarrow> 's \<times> error option) \<Rightarrow> 'a list \<Rightarrow> 's \<Rightarrow> 's \<times> error option" where
  "for_each_io body [] s = (s, None)"
| "for_each_io body (x # xs) s =
     (case body x s of
        (s', Some e) \<Rightarrow> (s', Some e)
      | (s', None) \<Rightarrow> for_each_io body xs s')"

text \<open>
  The body of \<open>for filename in os.listdir(SNAPSHOT_FOLDER)\<close>; the state is the list of
  files written so far, each with its path.
\<close>

definition file_body ::
  "filesystem \<Rightarrow> string \<Rightarrow> (string \<times> content) list
   \<Rightarrow> (string \<times> content) list \<times> error option" where
  "file_body fs filename written =
     (if \<not> endswith filename ''.json'' then (written, None)
      else
        case normalize_snapshot_file fs filename of
          Inl e \<Rightarrow> (written, Some e)
        | Inr normalized_rows \<Rightarrow>
            let json_file = path_join NORMALIZED_FOLDER filename in
            if \<not> writable fs json_file then (written, Some OSError)
            else
              let written1 = written @ [(json_file, JsonDoc normalized_rows)];
                  csv_file = replace_str ''.json'' ''.csv'' json_file
              in if normalized_rows \<noteq> [] then
                   if \<not> writable fs csv_file then (written1, Some OSError)
                   else (written1 @ [(csv_file, CsvDoc fieldnames normalized_rows)], None)
                 else (written1, None))"

definition normalize_all_snapshots ::
  "filesystem \<Rightarrow> (string \<times> content) list \<times> error option" where
  "normalize_all_snapshots fs = for_each_io (file_body fs) (listdir fs) []"

subsection \<open>Notions used in the statements\<close>

text \<open>
  These are not functions of the module: they name the parts of a document and of the
  output that the properties below speak about.
\<close>

definition items :: "json \<Rightarrow> string \<Rightarrow> json list" where
  "items d k = (case bind (dict_get d k (JArr [])) py_iter of Inl e \<Rightarrow> [] | Inr xs \<Rightarrow> xs)"

definition price_of :: "json \<Rightarrow> rat option" where
  "price_of oc = (case dict_get oc ''price'' JNull of Inl e \<Rightarrow> None | Inr v \<Rightarrow> num_of v)"

definition nonzero_price :: "json \<Rightarrow> bool" where
  "nonzero_price oc = (case price_of oc of None \<Rightarrow> False | Some v \<Rightarrow> v \<noteq> 0)"

text \<open>The markets and the outcomes a traversal of the document reaches.\<close>

definition all_markets :: "json \<Rightarrow> json list" where
  "all_markets snapshot =
     concat (map (\<lambda>bk. items bk ''markets'')
       (concat (map (\<lambda>ev. items ev ''bookmakers'') (items snapshot ''events''))))"

definition all_outcomes :: "json \<Rightarrow> json list" where
  "all_outcomes snapshot = concat (map (\<lambda>mk. items mk ''outcomes'') (all_markets snapshot))"

definition price_absent :: "json \<Rightarrow> bool" where
  "price_absent oc = (case oc of JObj kvs \<Rightarrow> map_of kvs ''price'' = None | _ \<Rightarrow> False)"

definition field :: "json \<Rightarrow> string \<Rightarrow> json" where
  "field d k = (case dict_get d k JNull of Inl e \<Rightarrow> JNull | Inr v \<Rightarrow> v)"

definition outcome_row ::
  "json \<Rightarrow> json \<Rightarrow> json \<Rightarrow> json \<Rightarrow> json \<Rightarrow> json \<Rightarrow> rat list \<Rightarrow> rat list \<Rightarrow> rat list
   \<Rightarrow> nat \<times> json \<Rightarrow> rat row" where
  "outcome_row eid sp ct bookmaker_name lu market_key dl il fl io =
     \<lparr> event_id = eid, sport = sp, commence_time = ct, bookmaker = bookmaker_name,
       market = market_key, outcome = field (snd io) ''name'',
       american_odds = field (snd io) ''price'',
       decimal_odds = py_round (dl ! fst io) 4,
       implied_probability = py_round (il ! fst io) 4,
       fair_probability = py_round (fl ! fst io) 4,
       last_update = lu \<rparr>"

text \<open>
  The fields of a record that are copied from the document, in the order of the
  \<open>row\<close> dict (the three computed figures left out).
\<close>

definition labels :: "'n row \<Rightarrow> json list" where
  "labels r = [event_id r, sport r, commence_time r, bookmaker r, market r, outcome r,
               american_odds r, last_update r]"

text \<open>
  A document the loops run through without an exception: at each level the owner is a
  dict and the value under the key, or the default \<open>[]\<close> of an absent key, can be
  iterated; every outcome is a dict whose price is a nonzero integer of at most 17
  digits.
\<close>

definition collection_ok :: "json \<Rightarrow> string \<Rightarrow> bool" where
  "collection_ok d k =
     (case bind (dict_get d k (JArr [])) py_iter of Inl e \<Rightarrow> False | Inr xs \<Rightarrow> True)"

definition american_price :: "json \<Rightarrow> bool" where
  "american_price oc =
     (case dict_get oc ''price'' JNull of
        Inr (JInt n) \<Rightarrow> n \<noteq> 0 \<and> \<bar>n\<bar> \<le> 10 ^ 17
      | _ \<Rightarrow> False)"

definition market_ok :: "json \<Rightarrow> bool" where
  "market_ok mk \<longleftrightarrow>
     collection_ok mk ''outcomes'' \<and> list_all american_price (items mk ''outcomes'')"

definition bookmaker_ok :: "json \<Rightarrow> bool" where
  "bookmaker_ok bk \<longleftrightarrow>
     collection_ok bk ''markets'' \<and> list_all market_ok (items bk ''markets'')"

definition event_ok :: "json \<Rightarrow> bool" where
  "event_ok ev \<longleftrightarrow>
     collection_ok ev ''bookmakers'' \<and> list_all bookmaker_ok (items ev ''bookmakers'')"

definition snapshot_ok :: "json \<Rightarrow> bool" where
  "snapshot_ok snapshot \<longleftrightarrow>
     collection_ok snapshot ''events'' \<and> list_all event_ok (items snapshot ''events'')"

text \<open>
  What the spec's record flattener emits, as labels: one record per outcome, in traversal
  order, carrying the values of its event, bookmaker and market; an absent value is null
  and an absent collection has no element.
\<close>

definition labels_of_market ::
  "json \<Rightarrow> json \<Rightarrow> json \<Rightarrow> json \<Rightarrow> json \<Rightarrow> json \<Rightarrow> json list list" where
  "labels_of_market eid sp ct bn lu mk =
     map (\<lambda>oc. [eid, sp, ct, bn, field mk ''key'', field oc ''name'', field oc ''price'', lu])
       (items mk ''outcomes'')"

definition labels_of_bookmaker :: "json \<Rightarrow> json \<Rightarrow> json \<Rightarrow> json \<Rightarrow> json list list" where
  "labels_of_bookmaker eid sp ct bk =
     concat (map (labels_of_market eid sp ct (field bk ''key'') (field bk ''last_update''))
       (items bk ''markets''))"

definition labels_of_event :: "json \<Rightarrow> json list list" where
  "labels_of_event ev =
     concat (map
       (labels_of_bookmaker (field ev ''id'') (field ev ''sport_key'') (field ev ''commence_time''))
       (items ev ''bookmakers''))"

definition labels_of_snapshot :: "json \<Rightarrow> json list list" where
  "labels_of_snapshot snapshot = concat (map labels_of_event (items snapshot ''events''))"

subsection \<open>Example documents\<close>

definition example_outcome :: "string \<Rightarrow> int \<Rightarrow> json" where
  "example_outcome n p = JObj [(''name'', JStr n), (''price'', JInt p)]"

definition example_market :: "json list \<Rightarrow> json" where
  "example_market ocs = JObj [(''key'', JStr ''h2h''), (''outcomes'', JArr ocs)]"

definition example_event :: "string \<Rightarrow> json list \<Rightarrow> json" where
  "example_event sk mks =
     JObj [(''id'', JStr ''e1''), (''sport_key'', JStr sk),
           (''commence_time'', JStr ''2025-01-01T00:00:00Z''),
           (''bookmakers'', JArr [JObj [(''key'', JStr ''book''),
                                        (''last_update'', JStr ''2025-01-01T00:00:00Z''),
                                        (''markets'', JArr mks)]])]"

definition example_snapshot :: "json list \<Rightarrow> json" where
  "example_snapshot evs = JObj [(''events'', JArr evs)]"

definition example_two_way :: json where
  "example_two_way = example_market [example_outcome ''home'' 150, example_outcome ''away'' (-200)]"

definition example_three_way :: json where
  "example_three_way =
     example_market [example_outcome ''home'' 200, example_outcome ''draw'' 200,
                     example_outcome ''away'' 200]"

definition example_bad_snapshot :: "json \<Rightarrow> json" where
  "example_bad_snapshot bad =
     example_snapshot
       [example_event ''icehockey_nhl'' [example_two_way],
        example_event ''soccer_epl'' [example_market [example_outcome ''home'' 120, bad]]]"

definition example_mixed_snapshot :: json where
  "example_mixed_snapshot =
     example_snapshot
       [example_event ''icehockey_nhl'' [example_market [example_outcome ''home'' 150]],
        JObj [(''id'', JStr ''e2''), (''sport_key'', JStr ''soccer_epl'')],
        example_event ''soccer_epl'' [example_market [example_outcome ''away'' 120]]]"

definition example_fs :: "(string \<times> (error + json)) list \<Rightarrow> filesystem" where
  "example_fs files =
     \<lparr> listdir = map fst files,
       load = (\<lambda>path. case map_of (map (\<lambda>(n, d). (path_join SNAPSHOT_FOLDER n, d)) files) path of
                 None \<Rightarrow> Inl OSError | Some d \<Rightarrow> d),
       writable = (\<lambda>path. True) \<rparr>"

section \<open>Properties\<close>

lemmas example_defs =
  example_outcome_def example_market_def example_event_def example_snapshot_def
  example_two_way_def example_three_way_def

subsection \<open>Sequencing and loops\<close>

lemma bind_Inr [simp]: "bind (Inr x) f = f x"
  by (simp add: bind_def)

lemma bind_Inl [simp]: "bind (Inl e) f = Inl e"
  by (simp add: bind_def)

lemma bind_eq_Inr: "bind m f = Inr y \<longleftrightarrow> (\<exists>x. m = Inr x \<and> f x = Inr y)"
  by (cases m) simp_all

lemma bind_assoc: "bind (bind m f) g = bind m (\<lambda>x. bind (f x) g)"
  by (cases m) simp_all

lemma map_res_Cons_eq:
  "map_res f (x # xs) = Inr zs \<longleftrightarrow> (\<exists>y ys. f x = Inr y \<and> map_res f xs = Inr ys \<and> zs = y # ys)"
  by (auto split: sum.splits)

lemma map_res_eq_Inr: "map_res f xs = Inr ys \<longleftrightarrow> list_all2 (\<lambda>x y. f x = Inr y) xs ys"
proof (induction xs arbitrary: ys)
  case Nil
  then show ?case by auto
next
  case (Cons x xs)
  show ?case
    unfolding map_res_Cons_eq list_all2_Cons1 Cons.IH [symmetric] by auto
qed

lemma map_res_total:
  assumes "\<And>x. x \<in> set xs \<Longrightarrow> f x = Inr (g x)"
  shows "map_res f xs = Inr (map g xs)"
  using assms by (induction xs) simp_all

lemma for_each_appends:
  assumes "\<And>x s. body x s = bind (body x []) (\<lambda>r. Inr (s @ r))"
  shows "for_each body xs s = bind (map_res (\<lambda>x. body x []) xs) (\<lambda>rss. Inr (s @ concat rss))"
proof (induction xs arbitrary: s)
  case Nil
  then show ?case by simp
next
  case (Cons x xs)
  show ?case
  proof (cases "body x []")
    case (Inl e)
    then show ?thesis using assms [of x s] by simp
  next
    case (Inr r)
    then have "body x s = Inr (s @ r)" using assms [of x s] by simp
    then show ?thesis using Inr Cons.IH [of "s @ r"]
      by (cases "map_res (\<lambda>x. body x []) xs") simp_all
  qed
qed

lemma for_each_appends_nil:
  assumes "\<And>x s. body x s = bind (body x []) (\<lambda>r. Inr (s @ r))"
  shows "for_each body xs s = bind (for_each body xs []) (\<lambda>r. Inr (s @ r))"
  by (simp add: for_each_appends [OF assms, where xs = xs and s = s]
        for_each_appends [OF assms, where xs = xs and s = "[]"]
        bind_assoc)

lemma outcome_body_appends:
  "outcome_body eid sp ct bn lu mkey dl il fl io s =
     bind (outcome_body eid sp ct bn lu mkey dl il fl io []) (\<lambda>r. Inr (s @ r))"
  by (cases io) (simp add: outcome_body_def bind_def split: sum.splits)

lemma market_body_appends:
  "market_body eid sp ct bn lu mk s =
     bind (market_body eid sp ct bn lu mk []) (\<lambda>r. Inr (s @ r))"
proof (cases "s = []")
  case True
  then show ?thesis by (cases "market_body eid sp ct bn lu mk []") simp_all
next
  case False
  have *: "\<And>mkey dl il fl xs. for_each (outcome_body eid sp ct bn lu mkey dl il fl) xs s =
      bind (for_each (outcome_body eid sp ct bn lu mkey dl il fl) xs []) (\<lambda>r. Inr (s @ r))"
    by (rule for_each_appends_nil [OF outcome_body_appends])
  show ?thesis
    unfolding market_body_def by (simp add: * bind_assoc split_def)
qed

lemma bookmaker_body_appends:
  "bookmaker_body eid sp ct bk s =
     bind (bookmaker_body eid sp ct bk []) (\<lambda>r. Inr (s @ r))"
proof (cases "s = []")
  case True
  then show ?thesis by (cases "bookmaker_body eid sp ct bk []") simp_all
next
  case False
  have *: "\<And>bn lu xs. for_each (market_body eid sp ct bn lu) xs s =
      bind (for_each (market_body eid sp ct bn lu) xs []) (\<lambda>r. Inr (s @ r))"
    by (rule for_each_appends_nil [OF market_body_appends])
  show ?thesis
    unfolding bookmaker_body_def by (simp add: * bind_assoc)
qed

lemma event_body_appends:
  "event_body ev s = bind (event_body ev []) (\<lambda>r. Inr (s @ r))"
proof (cases "s = []")
  case True
  then show ?thesis by (cases "event_body ev []") simp_all
next
  case False
  have *: "\<And>eid sp ct xs. for_each (bookmaker_body eid sp ct) xs s =
      bind (for_each (bookmaker_body eid sp ct) xs []) (\<lambda>r. Inr (s @ r))"
    by (rule for_each_appends_nil [OF bookmaker_body_appends])
  show ?thesis
    unfolding event_body_def by (simp add: * bind_assoc)
qed


lemma dict_get_Inr_obj: "dict_get d k dflt = Inr v \<Longrightarrow> \<exists>kvs. d = JObj kvs"
  by (cases d) simp_all

lemma outcome_body_row:
  assumes "fst io < length dl" "fst io < length il" "fst io < length fl"
    and "snd io = JObj kvs"
  shows "outcome_body eid sp ct bn lu mkey dl il fl io s =
           Inr (s @ [outcome_row eid sp ct bn lu mkey dl il fl io])"
  using assms
  by (cases io) (simp add: outcome_body_def outcome_row_def py_index_def field_def)

lemma map_res_length: "map_res f xs = Inr ys \<Longrightarrow> length ys = length xs"
  by (simp add: map_res_eq_Inr list_all2_lengthD)

lemma map_res_set:
  "map_res f xs = Inr ys \<Longrightarrow> x \<in> set xs \<Longrightarrow> \<exists>y. f x = Inr y"
  by (auto simp: map_res_eq_Inr list_all2_conv_all_nth in_set_conv_nth)

lemma concat_map_singleton: "concat (map (\<lambda>x. [f x]) xs) = map f xs"
  by (induction xs) simp_all

lemma market_probs_Inr:
  assumes "market_probs mk = Inr (dl, il, fl)"
  shows "\<exists>v ocs. dict_get mk ''outcomes'' (JArr []) = Inr v \<and> py_iter v = Inr ocs
           \<and> map_res (\<lambda>oc. bind (dict_get oc ''price'' JNull) american_to_decimal) ocs = Inr dl
           \<and> map_res compute_implied_prob dl = Inr il
           \<and> remove_vig il = Inr fl"
  using assms unfolding market_probs_def by (auto simp: bind_eq_Inr)

lemma remove_vig_length: "remove_vig ps = Inr fs \<Longrightarrow> length fs = length ps"
  by (simp add: remove_vig_def map_res_length)

lemma market_body_rows:
  assumes "market_probs mk = Inr (dl, il, fl)"
    and "dict_get mk ''outcomes'' (JArr []) = Inr v" and "py_iter v = Inr ocs"
  shows "market_body eid sp ct bn lu mk s =
           Inr (s @ map (outcome_row eid sp ct bn lu (field mk ''key'') dl il fl)
                      (enumerate 0 ocs))"
proof -
  from market_probs_Inr [OF assms(1)] assms(2,3)
  have dl: "map_res (\<lambda>oc. bind (dict_get oc ''price'' JNull) american_to_decimal) ocs = Inr dl"
    and il: "map_res compute_implied_prob dl = Inr il"
    and fl: "remove_vig il = Inr fl"
    by auto
  have len: "length dl = length ocs" "length il = length ocs" "length fl = length ocs"
    using dl il fl by (simp_all add: map_res_length remove_vig_length)
  obtain kvs where mk: "mk = JObj kvs"
    using assms(2) dict_get_Inr_obj by blast
  have key: "dict_get mk ''key'' JNull = Inr (field mk ''key'')"
    by (simp add: mk field_def)
  let ?body = "outcome_body eid sp ct bn lu (field mk ''key'') dl il fl"
  let ?row = "outcome_row eid sp ct bn lu (field mk ''key'') dl il fl"
  have each: "?body io [] = Inr [?row io]" if "io \<in> set (enumerate 0 ocs)" for io
  proof -
    from that have i: "fst io < length ocs" and "ocs ! fst io = snd io"
      by (auto simp: in_set_enumerate_eq)
    then have oc: "snd io \<in> set ocs"
      using nth_mem [of "fst io" ocs] by simp
    from map_res_set [OF dl oc] obtain kvs' where "snd io = JObj kvs'"
      by (auto simp: bind_eq_Inr dest: dict_get_Inr_obj)
    with i len show ?thesis
      using outcome_body_row [of io dl il fl kvs' eid sp ct bn lu "field mk ''key''" "[]"]
      by simp
  qed
  have "map_res (\<lambda>io. ?body io []) (enumerate 0 ocs) = Inr (map (\<lambda>io. [?row io]) (enumerate 0 ocs))"
    by (rule map_res_total) (rule each)
  then have "for_each ?body (enumerate 0 ocs) s = Inr (s @ map ?row (enumerate 0 ocs))"
    by (simp add: for_each_appends [OF outcome_body_appends] concat_map_singleton)
  then show ?thesis
    unfolding market_body_def by (simp add: key assms)
qed


subsection \<open>Odds converter\<close>




subsection \<open>Rounding and vig removal\<close>




lemma american_to_decimal_num:
  assumes "num_of p = Some v" "v \<noteq> 0"
  shows "american_to_decimal p = Inr (if v > 0 then 1 + v / 100 else 1 + 100 / \<bar>v\<bar>)"
  using assms by (simp add: american_to_decimal_def true_div_def)

lemma nonzero_price_conv:
  assumes "nonzero_price oc"
  shows "\<exists>d. bind (dict_get oc ''price'' JNull) american_to_decimal = Inr d \<and> 1 < d"
proof -
  from assms obtain p v where p: "dict_get oc ''price'' JNull = Inr p"
    and v: "num_of p = Some v" "v \<noteq> 0"
    by (auto simp: nonzero_price_def price_of_def split: sum.splits option.splits)
  have "1 < (if v > 0 then 1 + v / 100 else 1 + 100 / \<bar>v\<bar>)"
    using v(2) by simp
  then show ?thesis
    using p american_to_decimal_num [OF v] by simp
qed

lemma map_res_all:
  assumes "\<And>x. x \<in> set xs \<Longrightarrow> \<exists>y. f x = Inr y \<and> P y"
  shows "\<exists>ys. map_res f xs = Inr ys \<and> (\<forall>y\<in>set ys. P y)"
  using assms
proof (induction xs)
  case Nil
  then show ?case by simp
next
  case (Cons x xs)
  then obtain ys where "map_res f xs = Inr ys" "\<forall>y\<in>set ys. P y"
    by auto
  moreover obtain y where "f x = Inr y" "P y"
    using Cons.prems [of x] by auto
  ultimately show ?case by simp
qed

lemma implied_probs_pos:
  assumes "\<forall>d\<in>set dl. 1 < d"
  shows "map_res compute_implied_prob dl = Inr (map (\<lambda>d. 1 / d) dl)"
  by (rule map_res_total) (use assms in \<open>auto simp: compute_implied_prob_def true_div_def\<close>)

lemma sum_list_pos_rat:
  fixes ps :: "rat list"
  assumes "ps \<noteq> []" "\<forall>p\<in>set ps. 0 < p"
  shows "0 < sum_list ps"
  using assms by (induction ps) (auto intro: add_pos_nonneg sum_list_nonneg less_imp_le)

lemma remove_vig_pos:
  assumes "\<forall>p\<in>set ps. 0 < p"
  shows "remove_vig ps = Inr (map (\<lambda>p. p / sum_list ps) ps)"
proof (cases "ps = []")
  case True
  then show ?thesis by (simp add: remove_vig_def)
next
  case False
  then have "sum_list ps \<noteq> 0"
    using sum_list_pos_rat [OF _ assms] by simp
  then show ?thesis
    unfolding remove_vig_def Let_def
    by (intro map_res_total) (simp add: true_div_def)
qed



lemma items_Inr:
  assumes "items d k \<noteq> []"
  shows "\<exists>v. dict_get d k (JArr []) = Inr v \<and> py_iter v = Inr (items d k)"
  using assms by (auto simp: items_def bind_def split: sum.splits)

lemma market_probs_nonzero:
  assumes "dict_get mk ''outcomes'' (JArr []) = Inr v" "py_iter v = Inr ocs"
    and "list_all nonzero_price ocs"
  shows "\<exists>dl il fl. market_probs mk = Inr (dl, il, fl) \<and> length fl = length ocs
           \<and> (\<forall>p\<in>set il. 0 < p) \<and> remove_vig il = Inr fl"
proof -
  obtain dl where dl: "map_res (\<lambda>oc. bind (dict_get oc ''price'' JNull) american_to_decimal) ocs = Inr dl"
    and dl1: "\<forall>d\<in>set dl. 1 < d"
    using map_res_all [of ocs "\<lambda>oc. bind (dict_get oc ''price'' JNull) american_to_decimal" "\<lambda>d. 1 < d"]
      nonzero_price_conv assms(3)
    by (auto simp: list_all_iff)
  let ?il = "map (\<lambda>d. 1 / d) dl"
  have il: "map_res compute_implied_prob dl = Inr ?il"
    by (rule implied_probs_pos [OF dl1])
  have pos: "\<forall>p\<in>set ?il. 0 < p"
    using dl1 by auto
  have fl: "remove_vig ?il = Inr (map (\<lambda>p. p / sum_list ?il) ?il)"
    by (rule remove_vig_pos [OF pos])
  have "market_probs mk = Inr (dl, ?il, map (\<lambda>p. p / sum_list ?il) ?il)"
    unfolding market_probs_def by (simp add: assms(1,2) dl il fl)
  moreover have "length dl = length ocs"
    using dl by (rule map_res_length)
  ultimately show ?thesis
    using pos fl by auto
qed



subsection \<open>Markets\<close>







text \<open>
  Claim C7. A market whose outcome list is empty (or absent) emits no record and raises
  nothing: \<open>remove_vig\<close> of the empty list is the empty list, no division happens, and
  the rows are left as they were.
\<close>

theorem empty_market:
  assumes "dict_get mk ''outcomes'' (JArr []) = Inr v" and "py_iter v = Inr []"
  shows "remove_vig [] = Inr []
       \<and> market_probs mk = Inr ([], [], [])
       \<and> market_body eid sp ct bn lu mk rows = Inr rows"
proof -
  have vig: "remove_vig [] = Inr []"
    by (simp add: remove_vig_def)
  have probs: "market_probs mk = Inr ([], [], [])"
    unfolding market_probs_def by (simp add: assms vig)
  show ?thesis
    using vig probs market_body_rows [OF probs assms, of eid sp ct bn lu rows]
    by simp
qed

theorem empty_market_witness:
  "dict_get (example_market []) ''outcomes'' (JArr []) = Inr (JArr [])
   \<and> py_iter (JArr []) = Inr []
   \<and> remove_vig [] = Inr []
   \<and> market_body JNull JNull JNull JNull JNull (example_market []) [] = Inr []"
proof -
  have h1: "dict_get (example_market []) ''outcomes'' (JArr []) = Inr (JArr [])"
    by (simp add: example_defs)
  have h2: "py_iter (JArr []) = Inr []"
    by simp
  show ?thesis
    using h1 h2 empty_market [OF h1 h2, of JNull JNull JNull JNull JNull "[]"]
    by simp
qed

subsection \<open>Traversal\<close>

lemma for_each_Inr_each:
  assumes "\<And>x s. body x s = bind (body x []) (\<lambda>r. Inr (s @ r))"
    and "for_each body xs s = Inr s'" and "x \<in> set xs"
  shows "\<exists>r. body x [] = Inr r"
proof -
  from assms(2) obtain rss where "map_res (\<lambda>x. body x []) xs = Inr rss"
    unfolding for_each_appends [OF assms(1)] by (auto simp: bind_eq_Inr)
  then show ?thesis
    using map_res_set [of "\<lambda>x. body x []" xs rss x] assms(3) by simp
qed

lemma for_each_invariant:
  assumes "\<And>x s s'. body x s = Inr s' \<Longrightarrow> P s \<Longrightarrow> P s'"
    and "for_each body xs s = Inr s'" and "P s"
  shows "P s'"
  using assms(2,3)
proof (induction xs arbitrary: s)
  case Nil
  then show ?case by simp
next
  case (Cons x xs)
  then show ?case
    by (auto split: sum.splits dest: assms(1))
qed

lemma market_body_Inr:
  assumes "market_body eid sp ct bn lu mk s = Inr s'"
  shows "\<exists>dl il fl. market_probs mk = Inr (dl, il, fl)
     \<and> for_each (outcome_body eid sp ct bn lu (field mk ''key'') dl il fl)
         (enumerate 0 (items mk ''outcomes'')) s = Inr s'"
  using assms unfolding market_body_def
  by (auto simp: bind_eq_Inr field_def items_def)

lemma bookmaker_body_Inr:
  assumes "bookmaker_body eid sp ct bk s = Inr s'"
  shows "for_each (market_body eid sp ct (field bk ''key'') (field bk ''last_update''))
           (items bk ''markets'') s = Inr s'"
  using assms unfolding bookmaker_body_def
  by (auto simp: bind_eq_Inr field_def items_def)

lemma event_body_Inr:
  assumes "event_body ev s = Inr s'"
  shows "for_each
           (bookmaker_body (field ev ''id'') (field ev ''sport_key'') (field ev ''commence_time''))
           (items ev ''bookmakers'') s = Inr s'"
  using assms unfolding event_body_def
  by (auto simp: bind_eq_Inr field_def items_def)

lemma normalize_snapshot_Inr:
  assumes "normalize_snapshot snapshot = Inr rows"
  shows "for_each event_body (items snapshot ''events'') [] = Inr rows"
  using assms unfolding normalize_snapshot_def
  by (auto simp: bind_eq_Inr items_def)

lemma market_probs_prices:
  assumes "market_probs mk = Inr (dl, il, fl)" and "oc \<in> set (items mk ''outcomes'')"
  shows "\<exists>d. bind (dict_get oc ''price'' JNull) american_to_decimal = Inr d"
proof -
  from market_probs_Inr [OF assms(1)] obtain v ocs
    where v: "dict_get mk ''outcomes'' (JArr []) = Inr v" "py_iter v = Inr ocs"
      and dl: "map_res (\<lambda>oc. bind (dict_get oc ''price'' JNull) american_to_decimal) ocs = Inr dl"
    by auto
  have "items mk ''outcomes'' = ocs"
    using v by (simp add: items_def)
  then show ?thesis
    using map_res_set [OF dl] assms(2) by simp
qed

lemma normalize_snapshot_prices:
  assumes "normalize_snapshot snapshot = Inr rows" and "oc \<in> set (all_outcomes snapshot)"
  shows "\<exists>d. bind (dict_get oc ''price'' JNull) american_to_decimal = Inr d"
proof -
  from assms(2) obtain ev bk mk
    where ev: "ev \<in> set (items snapshot ''events'')"
      and bk: "bk \<in> set (items ev ''bookmakers'')"
      and mk: "mk \<in> set (items bk ''markets'')"
      and oc: "oc \<in> set (items mk ''outcomes'')"
    by (auto simp: all_outcomes_def all_markets_def)
  from for_each_Inr_each [OF event_body_appends normalize_snapshot_Inr [OF assms(1)] ev]
  obtain r1 where "event_body ev [] = Inr r1" by auto
  from for_each_Inr_each [OF bookmaker_body_appends event_body_Inr [OF this] bk]
  obtain r2 where "bookmaker_body (field ev ''id'') (field ev ''sport_key'')
      (field ev ''commence_time'') bk [] = Inr r2" by auto
  from for_each_Inr_each [OF market_body_appends bookmaker_body_Inr [OF this] mk]
  obtain r3 where "market_body (field ev ''id'') (field ev ''sport_key'')
      (field ev ''commence_time'') (field bk ''key'') (field bk ''last_update'') mk [] = Inr r3"
    by auto
  from market_body_Inr [OF this] obtain dl il fl where "market_probs mk = Inr (dl, il, fl)"
    by auto
  from market_probs_prices [OF this oc] show ?thesis .
qed

lemma not_Inr_is_Inl: "(\<And>y. m \<noteq> Inr y) \<Longrightarrow> \<exists>e. m = Inl e"
  by (cases m) auto

lemma bad_price_aborts:
  assumes "oc \<in> set (all_outcomes snapshot)"
    and "bind (dict_get oc ''price'' JNull) american_to_decimal = Inl e"
  shows "\<exists>e'. normalize_snapshot snapshot = Inl e'"
proof (rule not_Inr_is_Inl)
  fix rows
  show "normalize_snapshot snapshot \<noteq> Inr rows"
    using normalize_snapshot_prices [OF _ assms(1)] assms(2) by auto
qed

lemma map_res_first_error:
  assumes "\<And>x. x \<in> set xs \<Longrightarrow> f x = Inl e \<or> (\<exists>y. f x = Inr y)"
    and "\<exists>x\<in>set xs. f x = Inl e"
  shows "map_res f xs = Inl e"
  using assms
proof (induction xs)
  case Nil
  then show ?case by simp
next
  case (Cons x xs)
  show ?case
  proof (cases "f x")
    case (Inl e')
    then show ?thesis using Cons.prems(1) [of x] by simp
  next
    case (Inr y)
    then have "\<exists>x\<in>set xs. f x = Inl e"
      using Cons.prems(2) by auto
    then have "map_res f xs = Inl e"
      using Cons.IH Cons.prems(1) by simp
    then show ?thesis using Inr by simp
  qed
qed

lemma market_error:
  assumes "oc \<in> set (items mk ''outcomes'')"
    and "bind (dict_get oc ''price'' JNull) american_to_decimal = Inl e"
    and "\<And>x. x \<in> set (items mk ''outcomes'') \<Longrightarrow>
           bind (dict_get x ''price'' JNull) american_to_decimal = Inl e
           \<or> (\<exists>d. bind (dict_get x ''price'' JNull) american_to_decimal = Inr d)"
  shows "market_body eid sp ct bn lu mk rows = Inl e"
proof -
  have ne: "items mk ''outcomes'' \<noteq> []"
    using assms(1) by auto
  from items_Inr [OF ne] obtain v
    where v: "dict_get mk ''outcomes'' (JArr []) = Inr v" "py_iter v = Inr (items mk ''outcomes'')"
    by auto
  obtain kvs where mk: "mk = JObj kvs"
    using v(1) dict_get_Inr_obj by blast
  have "map_res (\<lambda>oc. bind (dict_get oc ''price'' JNull) american_to_decimal)
          (items mk ''outcomes'') = Inl e"
    by (rule map_res_first_error) (use assms in auto)
  then have "market_probs mk = Inl e"
    unfolding market_probs_def by (simp add: v)
  then show ?thesis
    unfolding market_body_def by (simp add: mk)
qed

lemma outcome_body_sport:
  assumes "outcome_body eid sp ct bn lu mkey dl il fl io s = Inr s'"
    and "\<forall>r\<in>set s. sport r = sp"
  shows "\<forall>r\<in>set s'. sport r = sp"
  using assms
  by (cases io) (auto simp: outcome_body_def bind_eq_Inr)

lemma market_body_sport:
  assumes "market_body eid sp ct bn lu mk s = Inr s'" and "\<forall>r\<in>set s. sport r = sp"
  shows "\<forall>r\<in>set s'. sport r = sp"
proof -
  from market_body_Inr [OF assms(1)] obtain dl il fl
    where "for_each (outcome_body eid sp ct bn lu (field mk ''key'') dl il fl)
         (enumerate 0 (items mk ''outcomes'')) s = Inr s'"
    by auto
  then show ?thesis
    by (rule for_each_invariant [rotated]) (use assms(2) outcome_body_sport in blast)+
qed

lemma bookmaker_body_sport:
  assumes "bookmaker_body eid sp ct bk s = Inr s'" and "\<forall>r\<in>set s. sport r = sp"
  shows "\<forall>r\<in>set s'. sport r = sp"
  using bookmaker_body_Inr [OF assms(1)]
  by (rule for_each_invariant [rotated]) (use assms(2) market_body_sport in blast)+

lemma event_body_sport:
  assumes "event_body ev [] = Inr rs"
  shows "\<forall>r\<in>set rs. sport r = field ev ''sport_key''"
  using event_body_Inr [OF assms]
  by (rule for_each_invariant [rotated]) (use bookmaker_body_sport in \<open>simp, blast\<close>)

text \<open>
  Claim C9. When \<open>normalize_snapshot_file\<close> returns, its records are the concatenation,
  in order, of the records of the events, and every record flattened from an event
  carries that event's \<open>sport_key\<close> in its \<open>sport\<close> field (null when the event has
  none), whatever the other events of the snapshot hold; the module-level \<open>sport\<close> is
  never read.
\<close>

theorem record_sport:
  assumes "normalize_snapshot snapshot = Inr rows"
  shows "\<exists>rss. map_res (\<lambda>ev. event_body ev []) (items snapshot ''events'') = Inr rss
           \<and> rows = concat rss
           \<and> list_all2 (\<lambda>ev rs. \<forall>r\<in>set rs. sport r = field ev ''sport_key'')
               (items snapshot ''events'') rss"
proof -
  from normalize_snapshot_Inr [OF assms] obtain rss
    where rss: "map_res (\<lambda>ev. event_body ev []) (items snapshot ''events'') = Inr rss"
      and rows: "rows = concat rss"
    unfolding for_each_appends [OF event_body_appends] by (auto simp: bind_eq_Inr)
  from rss have "list_all2 (\<lambda>ev rs. event_body ev [] = Inr rs) (items snapshot ''events'') rss"
    by (simp add: map_res_eq_Inr)
  then have "list_all2 (\<lambda>ev rs. \<forall>r\<in>set rs. sport r = field ev ''sport_key'')
      (items snapshot ''events'') rss"
    by (rule list_all2_mono) (rule event_body_sport)
  with rss rows show ?thesis by blast
qed

theorem record_sport_witness:
  "map_sum id (map sport) (normalize_snapshot example_mixed_snapshot)
     = Inr [JStr ''icehockey_nhl'', JStr ''soccer_epl'']
   \<and> JStr sport_module \<notin> set [JStr ''icehockey_nhl'', JStr ''soccer_epl'']
   \<and> (\<exists>rows rss. normalize_snapshot example_mixed_snapshot = Inr rows
         \<and> map_res (\<lambda>ev. event_body ev []) (items example_mixed_snapshot ''events'') = Inr rss
         \<and> rows = concat rss
         \<and> list_all2 (\<lambda>ev rs. \<forall>r\<in>set rs. sport r = field ev ''sport_key'')
               (items example_mixed_snapshot ''events'') rss)"
proof -
  have sports: "map_sum id (map sport) (normalize_snapshot example_mixed_snapshot)
     = Inr [JStr ''icehockey_nhl'', JStr ''soccer_epl'']"
    by code_simp
  then obtain rows where h: "normalize_snapshot example_mixed_snapshot = Inr rows"
    by (cases "normalize_snapshot example_mixed_snapshot") auto
  have "JStr sport_module \<notin> set [JStr ''icehockey_nhl'', JStr ''soccer_epl'']"
    by (simp add: sport_module_def)
  with sports h record_sport [OF h] show ?thesis
    by blast
qed

lemma collection_okD:
  assumes "collection_ok d k"
  shows "\<exists>kvs v. d = JObj kvs \<and> dict_get d k (JArr []) = Inr v \<and> py_iter v = Inr (items d k)"
proof -
  from assms obtain xs where xs: "bind (dict_get d k (JArr [])) py_iter = Inr xs"
    by (auto simp: collection_ok_def split: sum.splits)
  then obtain v where v: "dict_get d k (JArr []) = Inr v" "py_iter v = Inr xs"
    by (auto simp: bind_eq_Inr)
  moreover have "items d k = xs"
    using xs by (simp add: items_def)
  moreover obtain kvs where "d = JObj kvs"
    using v(1) dict_get_Inr_obj by blast
  ultimately show ?thesis by auto
qed

lemma missing_key_collection:
  assumes "map_of kvs k = None"
  shows "collection_ok (JObj kvs) k \<and> items (JObj kvs) k = []"
  using assms by (simp add: collection_ok_def items_def)

lemma for_each_collect:
  assumes appends: "\<And>x s. body x s = bind (body x []) (\<lambda>r. Inr (s @ r))"
    and each: "\<And>x. x \<in> set xs \<Longrightarrow> \<exists>r. body x [] = Inr r \<and> map g r = h x"
  shows "\<exists>new. for_each body xs s = Inr (s @ new) \<and> map g new = concat (map h xs)"
  using each
proof (induction xs arbitrary: s)
  case Nil
  then show ?case by simp
next
  case (Cons x xs)
  from Cons.prems [of x] obtain r where r: "body x [] = Inr r" "map g r = h x"
    by auto
  then have step: "body x s = Inr (s @ r)"
    using appends [of x s] by simp
  from Cons.IH [of "s @ r"] Cons.prems obtain new
    where new: "for_each body xs (s @ r) = Inr ((s @ r) @ new)" "map g new = concat (map h xs)"
    by auto
  show ?case
    using step new r(2) by (intro exI [of _ "r @ new"]) simp
qed

lemma american_price_nonzero: "american_price oc \<Longrightarrow> nonzero_price oc"
  by (auto simp: american_price_def nonzero_price_def price_of_def
      split: sum.splits json.splits)

lemma labels_outcome_row:
  "labels (outcome_row eid sp ct bn lu mkey dl il fl io) =
     [eid, sp, ct, bn, mkey, field (snd io) ''name'', field (snd io) ''price'', lu]"
  by (simp add: labels_def outcome_row_def)

lemma map_snd_enumerate_comp: "map (\<lambda>io. f (snd io)) (enumerate n xs) = map f xs"
  by (induction xs arbitrary: n) simp_all

lemma market_ok_rows:
  assumes "market_ok mk"
  shows "\<exists>new. market_body eid sp ct bn lu mk s = Inr (s @ new)
           \<and> map labels new = labels_of_market eid sp ct bn lu mk"
proof -
  from assms have ok: "collection_ok mk ''outcomes''"
    and prices: "list_all nonzero_price (items mk ''outcomes'')"
    by (auto simp: market_ok_def list_all_iff american_price_nonzero)
  from collection_okD [OF ok] obtain v
    where v: "dict_get mk ''outcomes'' (JArr []) = Inr v" "py_iter v = Inr (items mk ''outcomes'')"
    by auto
  from market_probs_nonzero [OF v prices] obtain dl il fl
    where probs: "market_probs mk = Inr (dl, il, fl)"
    by auto
  have "map labels (map (outcome_row eid sp ct bn lu (field mk ''key'') dl il fl)
          (enumerate 0 (items mk ''outcomes''))) = labels_of_market eid sp ct bn lu mk"
    by (simp add: labels_outcome_row labels_of_market_def comp_def
          map_snd_enumerate_comp [where f = "\<lambda>oc. [eid, sp, ct, bn, field mk ''key'',
             field oc ''name'', field oc ''price'', lu]"])
  then show ?thesis
    using market_body_rows [OF probs v, of eid sp ct bn lu s] by blast
qed

lemma bookmaker_ok_rows:
  assumes "bookmaker_ok bk"
  shows "\<exists>new. bookmaker_body eid sp ct bk s = Inr (s @ new)
           \<and> map labels new = labels_of_bookmaker eid sp ct bk"
proof -
  from assms have ok: "collection_ok bk ''markets''"
    and mks: "\<And>mk. mk \<in> set (items bk ''markets'') \<Longrightarrow> market_ok mk"
    by (auto simp: bookmaker_ok_def list_all_iff)
  from collection_okD [OF ok] obtain kvs v
    where bk: "bk = JObj kvs"
      and v: "dict_get bk ''markets'' (JArr []) = Inr v" "py_iter v = Inr (items bk ''markets'')"
    by auto
  have body: "bookmaker_body eid sp ct bk s =
      for_each (market_body eid sp ct (field bk ''key'') (field bk ''last_update''))
        (items bk ''markets'') s"
    unfolding bookmaker_body_def using v by (simp add: bk field_def)
  have "\<exists>new. for_each (market_body eid sp ct (field bk ''key'') (field bk ''last_update''))
          (items bk ''markets'') s = Inr (s @ new)
        \<and> map labels new = concat (map
            (labels_of_market eid sp ct (field bk ''key'') (field bk ''last_update''))
            (items bk ''markets''))"
  proof (rule for_each_collect [OF market_body_appends])
    fix mk assume "mk \<in> set (items bk ''markets'')"
    then show "\<exists>r. market_body eid sp ct (field bk ''key'') (field bk ''last_update'') mk [] = Inr r
        \<and> map labels r = labels_of_market eid sp ct (field bk ''key'') (field bk ''last_update'') mk"
      using market_ok_rows [OF mks, of mk eid sp ct "field bk ''key''" "field bk ''last_update''" "[]"]
      by simp
  qed
  then show ?thesis
    by (simp add: body labels_of_bookmaker_def)
qed

lemma event_ok_rows:
  assumes "event_ok ev"
  shows "\<exists>new. event_body ev s = Inr (s @ new) \<and> map labels new = labels_of_event ev"
proof -
  from assms have ok: "collection_ok ev ''bookmakers''"
    and bks: "\<And>bk. bk \<in> set (items ev ''bookmakers'') \<Longrightarrow> bookmaker_ok bk"
    by (auto simp: event_ok_def list_all_iff)
  from collection_okD [OF ok] obtain kvs v
    where ev: "ev = JObj kvs"
      and v: "dict_get ev ''bookmakers'' (JArr []) = Inr v"
        "py_iter v = Inr (items ev ''bookmakers'')"
    by auto
  let ?body = "bookmaker_body (field ev ''id'') (field ev ''sport_key'') (field ev ''commence_time'')"
  have body: "event_body ev s = for_each ?body (items ev ''bookmakers'') s"
    unfolding event_body_def using v by (simp add: ev field_def)
  have "\<exists>new. for_each ?body (items ev ''bookmakers'') s = Inr (s @ new)
        \<and> map labels new = concat (map
            (labels_of_bookmaker (field ev ''id'') (field ev ''sport_key'')
               (field ev ''commence_time'')) (items ev ''bookmakers''))"
  proof (rule for_each_collect [OF bookmaker_body_appends])
    fix bk assume "bk \<in> set (items ev ''bookmakers'')"
    then show "\<exists>r. ?body bk [] = Inr r
        \<and> map labels r = labels_of_bookmaker (field ev ''id'') (field ev ''sport_key'')
             (field ev ''commence_time'') bk"
      using bookmaker_ok_rows [OF bks, of bk "field ev ''id''" "field ev ''sport_key''"
          "field ev ''commence_time''" "[]"]
      by simp
  qed
  then show ?thesis
    by (simp add: body labels_of_event_def)
qed

lemma snapshot_ok_rows:
  assumes "snapshot_ok snapshot"
  shows "\<exists>rows. normalize_snapshot snapshot = Inr rows
           \<and> map labels rows = labels_of_snapshot snapshot"
proof -
  from assms have ok: "collection_ok snapshot ''events''"
    and evs: "\<And>ev. ev \<in> set (items snapshot ''events'') \<Longrightarrow> event_ok ev"
    by (auto simp: snapshot_ok_def list_all_iff)
  from collection_okD [OF ok] obtain v
    where v: "dict_get snapshot ''events'' (JArr []) = Inr v"
        "py_iter v = Inr (items snapshot ''events'')"
    by auto
  have body: "normalize_snapshot snapshot = for_each event_body (items snapshot ''events'') []"
    unfolding normalize_snapshot_def using v by simp
  have "\<exists>new. for_each event_body (items snapshot ''events'') [] = Inr ([] @ new)
        \<and> map labels new = concat (map labels_of_event (items snapshot ''events''))"
  proof (rule for_each_collect [OF event_body_appends])
    fix ev assume "ev \<in> set (items snapshot ''events'')"
    then show "\<exists>r. event_body ev [] = Inr r \<and> map labels r = labels_of_event ev"
      using event_ok_rows [OF evs, of ev "[]"] by simp
  qed
  then show ?thesis
    by (simp add: body labels_of_snapshot_def)
qed

text \<open>
  Claim C10. A missing \<open>events\<close>, \<open>bookmakers\<close>, \<open>markets\<close> or \<open>outcomes\<close> key is
  read as the empty list and raises nothing: a document without \<open>events\<close> gives no
  record; an event, bookmaker or market without its collection leaves the rows collected
  so far unchanged; a dict without the key is a collection that can be iterated and has
  no element. For every document whose present collections can be iterated and whose
  outcomes carry a nonzero integer price, \<open>normalize_snapshot_file\<close> returns, without
  an exception, exactly one record per outcome that is present, in traversal order, with
  the values of its event, bookmaker and market.
\<close>

theorem missing_collections:
  shows "(map_of kvs ''events'' = None \<longrightarrow> normalize_snapshot (JObj kvs) = Inr [])
       \<and> (map_of kvs ''bookmakers'' = None \<longrightarrow> event_body (JObj kvs) rows = Inr rows)
       \<and> (map_of kvs ''markets'' = None \<longrightarrow> bookmaker_body eid sp ct (JObj kvs) rows = Inr rows)
       \<and> (map_of kvs ''outcomes'' = None \<longrightarrow>
            market_body eid sp ct bn lu (JObj kvs) rows = Inr rows)
       \<and> (map_of kvs k = None \<longrightarrow> collection_ok (JObj kvs) k \<and> items (JObj kvs) k = [])
       \<and> (snapshot_ok snapshot \<longrightarrow>
            (\<exists>rs. normalize_snapshot snapshot = Inr rs
               \<and> map labels rs = labels_of_snapshot snapshot))"
proof -
  have "(map_of kvs ''events'' = None \<longrightarrow> normalize_snapshot (JObj kvs) = Inr [])
       \<and> (map_of kvs ''bookmakers'' = None \<longrightarrow> event_body (JObj kvs) rows = Inr rows)
       \<and> (map_of kvs ''markets'' = None \<longrightarrow> bookmaker_body eid sp ct (JObj kvs) rows = Inr rows)
       \<and> (map_of kvs ''outcomes'' = None \<longrightarrow>
            market_body eid sp ct bn lu (JObj kvs) rows = Inr rows)"
    by (simp add: normalize_snapshot_def event_body_def bookmaker_body_def market_body_def
        market_probs_def remove_vig_def)
  then show ?thesis
    using missing_key_collection [of kvs k] snapshot_ok_rows [of snapshot] by blast
qed

theorem missing_collections_witness:
  "map_of [(''id'', JStr ''e2''), (''sport_key'', JStr ''soccer_epl'')] ''bookmakers'' = None
   \<and> event_body (JObj [(''id'', JStr ''e2''), (''sport_key'', JStr ''soccer_epl'')]) [] = Inr []
   \<and> map_of ([] :: (string \<times> json) list) ''events'' = None
   \<and> normalize_snapshot (JObj []) = Inr []
   \<and> bookmaker_body JNull JNull JNull (JObj []) [] = Inr []
   \<and> market_body JNull JNull JNull JNull JNull (JObj []) [] = Inr []
   \<and> snapshot_ok example_mixed_snapshot
   \<and> (\<exists>rs. normalize_snapshot example_mixed_snapshot = Inr rs
         \<and> map labels rs =
             [[JStr ''e1'', JStr ''icehockey_nhl'', JStr ''2025-01-01T00:00:00Z'', JStr ''book'',
               JStr ''h2h'', JStr ''home'', JInt 150, JStr ''2025-01-01T00:00:00Z''],
              [JStr ''e1'', JStr ''soccer_epl'', JStr ''2025-01-01T00:00:00Z'', JStr ''book'',
               JStr ''h2h'', JStr ''away'', JInt 120, JStr ''2025-01-01T00:00:00Z'']])"
proof -
  have ok: "snapshot_ok example_mixed_snapshot"
    by code_simp
  have lab: "labels_of_snapshot example_mixed_snapshot =
             [[JStr ''e1'', JStr ''icehockey_nhl'', JStr ''2025-01-01T00:00:00Z'', JStr ''book'',
               JStr ''h2h'', JStr ''home'', JInt 150, JStr ''2025-01-01T00:00:00Z''],
              [JStr ''e1'', JStr ''soccer_epl'', JStr ''2025-01-01T00:00:00Z'', JStr ''book'',
               JStr ''h2h'', JStr ''away'', JInt 120, JStr ''2025-01-01T00:00:00Z'']]"
    by code_simp
  show ?thesis
    using ok
      missing_collections
        [of "[(''id'', JStr ''e2''), (''sport_key'', JStr ''soccer_epl'')]" "[]" _ _ _ _ _ _
          example_mixed_snapshot]
      missing_collections [of "[]" "[]" JNull JNull JNull JNull JNull]
    by (simp add: lab)
qed

subsection \<open>Prices that cannot be converted\<close>

lemma price_zero_conv:
  assumes "price_of oc = Some 0"
  shows "bind (dict_get oc ''price'' JNull) american_to_decimal = Inl ZeroDivisionError"
  using assms
  by (auto simp: price_of_def american_to_decimal_def true_div_def split: sum.splits)

lemma price_numeric_conv:
  assumes "price_of x \<noteq> None"
  shows "bind (dict_get x ''price'' JNull) american_to_decimal = Inl ZeroDivisionError
       \<or> (\<exists>d. bind (dict_get x ''price'' JNull) american_to_decimal = Inr d)"
proof -
  from assms obtain p v where p: "dict_get x ''price'' JNull = Inr p" and v: "num_of p = Some v"
    by (auto simp: price_of_def split: sum.splits)
  show ?thesis
  proof (cases "v = 0")
    case True
    then have "price_of x = Some 0"
      using p v by (simp add: price_of_def)
    then show ?thesis
      using price_zero_conv by blast
  next
    case False
    then show ?thesis
      using p american_to_decimal_num [OF v False] by simp
  qed
qed

lemma normalize_snapshot_file_load:
  "load fs (path_join SNAPSHOT_FOLDER filename) = Inr snapshot \<Longrightarrow>
   normalize_snapshot_file fs filename = normalize_snapshot snapshot"
  by (simp add: normalize_snapshot_file_def)

lemma example_bad_outcomes:
  "all_outcomes (example_bad_snapshot bad) =
     [example_outcome ''home'' 150, example_outcome ''away'' (-200),
      example_outcome ''home'' 120, bad]"
  by (simp add: all_outcomes_def all_markets_def items_def example_bad_snapshot_def example_defs)

text \<open>
  Claim C2, amended. When an outcome's price is 0, the conversion divides by zero and
  raises \<open>ZeroDivisionError\<close> (the module has no \<open>InvalidOdds\<close> error); the
  exception is not caught, so \<open>normalize_snapshot_file\<close> raises and returns no record
  for any outcome of the file. In a market whose prices are all numeric the exception
  raised is that \<open>ZeroDivisionError\<close>.
\<close>

theorem zero_price_aborts:
  assumes "oc \<in> set (all_outcomes snapshot)" and "price_of oc = Some 0"
  shows "bind (dict_get oc ''price'' JNull) american_to_decimal = Inl ZeroDivisionError
       \<and> (\<exists>e. normalize_snapshot snapshot = Inl e)
       \<and> (load fs (path_join SNAPSHOT_FOLDER filename) = Inr snapshot \<longrightarrow>
            (\<exists>e. normalize_snapshot_file fs filename = Inl e))
       \<and> (\<forall>mk. oc \<in> set (items mk ''outcomes'')
                \<and> list_all (\<lambda>x. price_of x \<noteq> None) (items mk ''outcomes'') \<longrightarrow>
              market_body eid sp ct bn lu mk rows = Inl ZeroDivisionError)"
proof -
  have conv: "bind (dict_get oc ''price'' JNull) american_to_decimal = Inl ZeroDivisionError"
    by (rule price_zero_conv [OF assms(2)])
  have abort: "\<exists>e. normalize_snapshot snapshot = Inl e"
    by (rule bad_price_aborts [OF assms(1) conv])
  have "market_body eid sp ct bn lu mk rows = Inl ZeroDivisionError"
    if "oc \<in> set (items mk ''outcomes'')"
      and "list_all (\<lambda>x. price_of x \<noteq> None) (items mk ''outcomes'')" for mk
    using that(1) conv
  proof (rule market_error)
    fix x assume "x \<in> set (items mk ''outcomes'')"
    then have "price_of x \<noteq> None"
      using that(2) by (simp add: list_all_iff)
    then show "bind (dict_get x ''price'' JNull) american_to_decimal = Inl ZeroDivisionError
       \<or> (\<exists>d. bind (dict_get x ''price'' JNull) american_to_decimal = Inr d)"
      by (rule price_numeric_conv)
  qed
  with conv abort show ?thesis
    by (auto simp: normalize_snapshot_file_load)
qed

theorem zero_price_aborts_witness:
  "example_outcome ''away'' 0
      \<in> set (all_outcomes (example_bad_snapshot (example_outcome ''away'' 0)))
   \<and> price_of (example_outcome ''away'' 0) = Some 0
   \<and> american_to_decimal (JInt 0) = Inl ZeroDivisionError
   \<and> (\<exists>e. normalize_snapshot (example_bad_snapshot (example_outcome ''away'' 0)) = Inl e)
   \<and> (\<exists>e. normalize_snapshot_file
              (example_fs [(''a.json'', Inr (example_bad_snapshot (example_outcome ''away'' 0)))])
              ''a.json'' = Inl e)
   \<and> market_body JNull JNull JNull JNull JNull
        (example_market [example_outcome ''home'' 120, example_outcome ''away'' 0]) []
       = Inl ZeroDivisionError"
proof -
  let ?bad = "example_outcome ''away'' 0"
  let ?mk = "example_market [example_outcome ''home'' 120, ?bad]"
  let ?fs = "example_fs [(''a.json'', Inr (example_bad_snapshot ?bad))]"
  have h1: "?bad \<in> set (all_outcomes (example_bad_snapshot ?bad))"
    by (simp add: example_bad_outcomes)
  have h2: "price_of ?bad = Some 0"
    by (simp add: price_of_def example_defs)
  have ld: "load ?fs (path_join SNAPSHOT_FOLDER ''a.json'') = Inr (example_bad_snapshot ?bad)"
    by (simp add: example_fs_def path_join_def SNAPSHOT_FOLDER_def)
  have mk: "?bad \<in> set (items ?mk ''outcomes'')"
    "list_all (\<lambda>x. price_of x \<noteq> None) (items ?mk ''outcomes'')"
    by (simp_all add: items_def price_of_def example_defs)
  have conv: "american_to_decimal (JInt 0) = Inl ZeroDivisionError"
    using zero_price_aborts [OF h1 h2] by (simp add: example_defs)
  show ?thesis
    using h1 h2 ld mk conv
      zero_price_aborts [OF h1 h2, of ?fs "''a.json''" JNull JNull JNull JNull JNull "[]"]
    by blast
qed

text \<open>
  A file with three convertible outcomes and one outcome at price 0 gives no record at all.
\<close>

theorem zero_price_aborts_counterexample:
  "normalize_snapshot (example_bad_snapshot (example_outcome ''away'' 0)) = Inl ZeroDivisionError"
  by code_simp

lemma price_absent_conv:
  assumes "price_absent oc"
  shows "bind (dict_get oc ''price'' JNull) american_to_decimal = Inl TypeError"
  using assms
  by (auto simp: price_absent_def american_to_decimal_def split: json.splits)

lemma price_absent_or_nonzero_conv:
  assumes "price_absent x \<or> nonzero_price x"
  shows "bind (dict_get x ''price'' JNull) american_to_decimal = Inl TypeError
       \<or> (\<exists>d. bind (dict_get x ''price'' JNull) american_to_decimal = Inr d)"
  using assms price_absent_conv [of x] nonzero_price_conv [of x] by auto

text \<open>
  Claim C4, amended. For an outcome whose \<open>price\<close> is absent, \<open>o.get("price")\<close> is
  \<open>None\<close>, the comparison in \<open>american_to_decimal\<close> raises \<open>TypeError\<close>, and the
  exception is not caught: \<open>normalize_snapshot_file\<close> raises and returns no record for
  any outcome of the file. In a market whose other prices are numeric and nonzero the
  exception raised is that \<open>TypeError\<close>.
\<close>

theorem absent_price_aborts:
  assumes "oc \<in> set (all_outcomes snapshot)" and "price_absent oc"
  shows "dict_get oc ''price'' JNull = Inr JNull
       \<and> american_to_decimal JNull = Inl TypeError
       \<and> (\<exists>e. normalize_snapshot snapshot = Inl e)
       \<and> (load fs (path_join SNAPSHOT_FOLDER filename) = Inr snapshot \<longrightarrow>
            (\<exists>e. normalize_snapshot_file fs filename = Inl e))
       \<and> (\<forall>mk. oc \<in> set (items mk ''outcomes'')
                \<and> list_all (\<lambda>x. price_absent x \<or> nonzero_price x) (items mk ''outcomes'') \<longrightarrow>
              market_body eid sp ct bn lu mk rows = Inl TypeError)"
proof -
  have get: "dict_get oc ''price'' JNull = Inr JNull"
    using assms(2) by (auto simp: price_absent_def split: json.splits)
  have conv: "bind (dict_get oc ''price'' JNull) american_to_decimal = Inl TypeError"
    by (rule price_absent_conv [OF assms(2)])
  have null: "american_to_decimal JNull = Inl TypeError"
    by (simp add: american_to_decimal_def)
  have abort: "\<exists>e. normalize_snapshot snapshot = Inl e"
    by (rule bad_price_aborts [OF assms(1) conv])
  have "market_body eid sp ct bn lu mk rows = Inl TypeError"
    if "oc \<in> set (items mk ''outcomes'')"
      and "list_all (\<lambda>x. price_absent x \<or> nonzero_price x) (items mk ''outcomes'')" for mk
    using that(1) conv
  proof (rule market_error)
    fix x assume "x \<in> set (items mk ''outcomes'')"
    then have "price_absent x \<or> nonzero_price x"
      using that(2) by (simp add: list_all_iff)
    then show "bind (dict_get x ''price'' JNull) american_to_decimal = Inl TypeError
       \<or> (\<exists>d. bind (dict_get x ''price'' JNull) american_to_decimal = Inr d)"
      by (rule price_absent_or_nonzero_conv)
  qed
  with get null abort show ?thesis
    by (auto simp: normalize_snapshot_file_load)
qed

theorem absent_price_aborts_witness:
  "JObj [(''name'', JStr ''away'')]
      \<in> set (all_outcomes (example_bad_snapshot (JObj [(''name'', JStr ''away'')])))
   \<and> price_absent (JObj [(''name'', JStr ''away'')])
   \<and> american_to_decimal JNull = Inl TypeError
   \<and> (\<exists>e. normalize_snapshot (example_bad_snapshot (JObj [(''name'', JStr ''away'')])) = Inl e)
   \<and> (\<exists>e. normalize_snapshot_file
              (example_fs [(''a.json'', Inr (example_bad_snapshot (JObj [(''name'', JStr ''away'')])))])
              ''a.json'' = Inl e)
   \<and> market_body JNull JNull JNull JNull JNull
        (example_market [example_outcome ''home'' 120, JObj [(''name'', JStr ''away'')]]) []
       = Inl TypeError"
proof -
  let ?bad = "JObj [(''name'', JStr ''away'')]"
  let ?mk = "example_market [example_outcome ''home'' 120, ?bad]"
  let ?fs = "example_fs [(''a.json'', Inr (example_bad_snapshot ?bad))]"
  have h1: "?bad \<in> set (all_outcomes (example_bad_snapshot ?bad))"
    by (simp add: example_bad_outcomes)
  have h2: "price_absent ?bad"
    by (simp add: price_absent_def)
  have ld: "load ?fs (path_join SNAPSHOT_FOLDER ''a.json'') = Inr (example_bad_snapshot ?bad)"
    by (simp add: example_fs_def path_join_def SNAPSHOT_FOLDER_def)
  have mk: "?bad \<in> set (items ?mk ''outcomes'')"
    "list_all (\<lambda>x. price_absent x \<or> nonzero_price x) (items ?mk ''outcomes'')"
    by (simp_all add: items_def price_absent_def nonzero_price_def price_of_def example_defs)
  show ?thesis
    using h1 h2 ld mk
      absent_price_aborts [OF h1 h2, of ?fs "''a.json''" JNull JNull JNull JNull JNull "[]"]
    by blast
qed

text \<open>
  A file with three convertible outcomes and one outcome without a price gives no record.
\<close>

theorem absent_price_aborts_counterexample:
  "normalize_snapshot (example_bad_snapshot (JObj [(''name'', JStr ''away'')])) = Inl TypeError"
  by code_simp

subsection \<open>Loader and sink\<close>

lemma for_each_io_append:
  "for_each_io body (xs @ ys) s =
     (case for_each_io body xs s of
        (s', Some e) \<Rightarrow> (s', Some e)
      | (s', None) \<Rightarrow> for_each_io body ys s')"
  by (induction xs arbitrary: s) (auto split: prod.splits option.splits)

text \<open>
  Claim C6. Once a file is normalized and its output paths can be written, the JSON file
  is written with the rows, and the CSV file is written exactly when there is at least
  one row; a snapshot whose \<open>events\<close> list is empty gives no row, hence a JSON file
  holding the empty array and no CSV file.
\<close>

theorem sink_writes:
  assumes "endswith filename ''.json''"
    and "normalize_snapshot_file fs filename = Inr rows"
    and "writable fs (path_join NORMALIZED_FOLDER filename)"
    and "rows \<noteq> [] \<longrightarrow>
           writable fs (replace_str ''.json'' ''.csv'' (path_join NORMALIZED_FOLDER filename))"
  shows "(load fs (path_join SNAPSHOT_FOLDER filename) = Inr snapshot
            \<and> dict_get snapshot ''events'' (JArr []) = Inr (JArr []) \<longrightarrow> rows = [])
       \<and> file_body fs filename written =
           (written @ (path_join NORMALIZED_FOLDER filename, JsonDoc rows) #
              (if rows = [] then []
               else [(replace_str ''.json'' ''.csv'' (path_join NORMALIZED_FOLDER filename),
                      CsvDoc fieldnames rows)]),
            None)"
proof -
  have "rows = []"
    if "load fs (path_join SNAPSHOT_FOLDER filename) = Inr snapshot"
      and "dict_get snapshot ''events'' (JArr []) = Inr (JArr [])"
    using that assms(2) by (simp add: normalize_snapshot_file_def normalize_snapshot_def)
  moreover have "file_body fs filename written =
           (written @ (path_join NORMALIZED_FOLDER filename, JsonDoc rows) #
              (if rows = [] then []
               else [(replace_str ''.json'' ''.csv'' (path_join NORMALIZED_FOLDER filename),
                      CsvDoc fieldnames rows)]),
            None)"
    using assms by (simp add: file_body_def Let_def)
  ultimately show ?thesis by blast
qed

theorem sink_writes_witness:
  "normalize_all_snapshots (example_fs [(''a.json'', Inr (example_snapshot []))])
     = ([(''normalized/a.json'', JsonDoc [])], None)"
proof -
  let ?fs = "example_fs [(''a.json'', Inr (example_snapshot []))]"
  have h1: "endswith ''a.json'' ''.json''"
    by (simp add: endswith_def)
  have ld: "load ?fs (path_join SNAPSHOT_FOLDER ''a.json'') = Inr (example_snapshot [])"
    by (simp add: example_fs_def path_join_def SNAPSHOT_FOLDER_def)
  have ev: "dict_get (example_snapshot []) ''events'' (JArr []) = Inr (JArr [])"
    by (simp add: example_defs)
  have h2: "normalize_snapshot_file ?fs ''a.json'' = Inr []"
    by (simp add: normalize_snapshot_file_def ld normalize_snapshot_def ev)
  have h3: "writable ?fs (path_join NORMALIZED_FOLDER ''a.json'')"
    by (simp add: example_fs_def)
  have h4: "([]::rat row list) \<noteq> [] \<longrightarrow>
      writable ?fs (replace_str ''.json'' ''.csv'' (path_join NORMALIZED_FOLDER ''a.json''))"
    by simp
  have "file_body ?fs ''a.json'' [] = ([(path_join NORMALIZED_FOLDER ''a.json'', JsonDoc [])], None)"
    using sink_writes [OF h1 h2 h3 h4, of "example_snapshot []" "[]"] by simp
  then show ?thesis
    by (simp add: normalize_all_snapshots_def example_fs_def path_join_def NORMALIZED_FOLDER_def)
qed

text \<open>
  Claim C8, amended. No exception of the loop body is caught in
  \<open>normalize_all_snapshots\<close>: the run ends at the first file that raises, with that
  exception; the files listed before it are written and the files listed after it are not
  processed. When the file cannot be opened, decoded or normalized
  (\<open>OSError\<close>, \<open>JSONDecodeError\<close>, an exception of the flattener), or its JSON output
  cannot be opened, nothing is written for it; when its CSV output cannot be opened, its
  JSON output has been written before.
\<close>

theorem batch_stops_at_error:
  assumes "listdir fs = pre @ filename # post"
    and "endswith filename ''.json''"
    and "for_each_io (file_body fs) pre [] = (written, None)"
  shows "(load fs (path_join SNAPSHOT_FOLDER filename) = Inl e \<longrightarrow>
            normalize_snapshot_file fs filename = Inl e)
       \<and> (normalize_snapshot_file fs filename = Inl e \<longrightarrow>
            normalize_all_snapshots fs = (written, Some e))
       \<and> (normalize_snapshot_file fs filename = Inr rows
            \<and> \<not> writable fs (path_join NORMALIZED_FOLDER filename) \<longrightarrow>
            normalize_all_snapshots fs = (written, Some OSError))
       \<and> (normalize_snapshot_file fs filename = Inr rows
            \<and> writable fs (path_join NORMALIZED_FOLDER filename) \<and> rows \<noteq> []
            \<and> \<not> writable fs (replace_str ''.json'' ''.csv'' (path_join NORMALIZED_FOLDER filename))
            \<longrightarrow>
            normalize_all_snapshots fs =
              (written @ [(path_join NORMALIZED_FOLDER filename, JsonDoc rows)], Some OSError))"
proof -
  have run: "normalize_all_snapshots fs = (written', Some e')"
    if "file_body fs filename written = (written', Some e')" for written' e'
    unfolding normalize_all_snapshots_def assms(1) for_each_io_append
    using assms(3) that by simp
  have "normalize_snapshot_file fs filename = Inl e"
    if "load fs (path_join SNAPSHOT_FOLDER filename) = Inl e"
    using that by (simp add: normalize_snapshot_file_def)
  moreover have "normalize_all_snapshots fs = (written, Some e)"
    if "normalize_snapshot_file fs filename = Inl e"
    by (rule run) (use that assms(2) in \<open>simp add: file_body_def\<close>)
  moreover have "normalize_all_snapshots fs = (written, Some OSError)"
    if "normalize_snapshot_file fs filename = Inr rows"
      and "\<not> writable fs (path_join NORMALIZED_FOLDER filename)"
    by (rule run) (use that assms(2) in \<open>simp add: file_body_def\<close>)
  moreover have "normalize_all_snapshots fs =
              (written @ [(path_join NORMALIZED_FOLDER filename, JsonDoc rows)], Some OSError)"
    if "normalize_snapshot_file fs filename = Inr rows"
      and "writable fs (path_join NORMALIZED_FOLDER filename)" and "rows \<noteq> []"
      and "\<not> writable fs (replace_str ''.json'' ''.csv'' (path_join NORMALIZED_FOLDER filename))"
    by (rule run) (use that assms(2) in \<open>simp add: file_body_def Let_def\<close>)
  ultimately show ?thesis by blast
qed


theorem batch_stops_at_error_witness:
  "normalize_all_snapshots
     (example_fs [(''a.json'', Inr (example_snapshot [])), (''b.json'', Inl JSONDecodeError),
                  (''c.json'', Inr (example_snapshot []))])
   = ([(''normalized/a.json'', JsonDoc [])], Some JSONDecodeError)
   \<and> map_prod (map fst) id
       (normalize_all_snapshots
          ((example_fs
              [(''a.json'', Inr (example_snapshot [example_event ''soccer_epl'' [example_two_way]])),
               (''b.json'', Inr (example_snapshot []))])
           \<lparr> writable := (\<lambda>path. path \<noteq> ''normalized/a.csv'') \<rparr>))
   = ([''normalized/a.json''], Some OSError)"
proof -
  let ?fs = "example_fs [(''a.json'', Inr (example_snapshot [])), (''b.json'', Inl JSONDecodeError),
                  (''c.json'', Inr (example_snapshot []))]"
  have h1: "listdir ?fs = [''a.json''] @ ''b.json'' # [''c.json'']"
    by (simp add: example_fs_def)
  have h2: "endswith ''b.json'' ''.json''"
    by (simp add: endswith_def)
  have h3: "for_each_io (file_body ?fs) [''a.json''] [] = ([(''normalized/a.json'', JsonDoc [])], None)"
    by code_simp
  have h4: "load ?fs (path_join SNAPSHOT_FOLDER ''b.json'') = Inl JSONDecodeError"
    by (simp add: example_fs_def path_join_def SNAPSHOT_FOLDER_def)
  have first: "normalize_all_snapshots ?fs
      = ([(''normalized/a.json'', JsonDoc [])], Some JSONDecodeError)"
    using batch_stops_at_error [OF h1 h2 h3, of JSONDecodeError] h4 by blast
  let ?gs = "(example_fs
              [(''a.json'', Inr (example_snapshot [example_event ''soccer_epl'' [example_two_way]])),
               (''b.json'', Inr (example_snapshot []))])
           \<lparr> writable := (\<lambda>path. path \<noteq> ''normalized/a.csv'') \<rparr>"
  have g1: "listdir ?gs = [] @ ''a.json'' # [''b.json'']"
    by (simp add: example_fs_def)
  have g2: "endswith ''a.json'' ''.json''"
    by (simp add: endswith_def)
  have g3: "for_each_io (file_body ?gs) [] [] = ([], None)"
    by simp
  have "map_sum id length (normalize_snapshot_file ?gs ''a.json'') = Inr 2"
    by code_simp
  then obtain rows where rows: "normalize_snapshot_file ?gs ''a.json'' = Inr rows" "rows \<noteq> []"
    by (cases "normalize_snapshot_file ?gs ''a.json''") fastforce+
  have g4: "writable ?gs (path_join NORMALIZED_FOLDER ''a.json'')"
    by (simp add: path_join_def NORMALIZED_FOLDER_def)
  have g5: "\<not> writable ?gs (replace_str ''.json'' ''.csv'' (path_join NORMALIZED_FOLDER ''a.json''))"
    by (simp add: path_join_def NORMALIZED_FOLDER_def)
  have "normalize_all_snapshots ?gs =
      ([] @ [(path_join NORMALIZED_FOLDER ''a.json'', JsonDoc rows)], Some OSError)"
    using batch_stops_at_error [OF g1 g2 g3, of _ rows] rows g4 g5 by blast
  then have second: "map_prod (map fst) id (normalize_all_snapshots ?gs)
      = ([''normalized/a.json''], Some OSError)"
    by (simp add: path_join_def NORMALIZED_FOLDER_def)
  from first second show ?thesis by simp
qed

theorem batch_stops_at_error_counterexample:
  "normalize_all_snapshots
     (example_fs [(''a.json'', Inl JSONDecodeError),
                  (''b.json'', Inr (example_snapshot [example_event ''soccer_epl'' [example_two_way]]))])
   = ([], Some JSONDecodeError)"
  by code_simp

end
